theory Spec2Isabelle
  imports Complex_Main "HOL-Library.Word"
begin

section \<open>Faults\<close>

text \<open>
  The header is C++ for x86 (it includes \<^verbatim>\<open>immintrin.h\<close>).  An access outside an
  array and a failed \<^verbatim>\<open>assert\<close> have no value in C++; the model makes each of them a
  value of its own, so that every operation is a total function into \<open>fault + result\<close>.
\<close>

datatype fault = OutOfBounds | AssertionFailed

definition bind_fault :: "fault + 'a \<Rightarrow> ('a \<Rightarrow> fault + 'b) \<Rightarrow> fault + 'b" where
  "bind_fault m f = (case m of Inl e \<Rightarrow> Inl e | Inr v \<Rightarrow> f v)"

text \<open>
  An allocated block is the list of its cells. \<open>block_read\<close> and \<open>block_write\<close> are
  \<^verbatim>\<open>b[x]\<close> as an rvalue and as the target of an assignment; outside the block they are
  the fault \<open>OutOfBounds\<close>.
\<close>

definition block_read :: "'a list \<Rightarrow> nat \<Rightarrow> fault + 'a" where
  "block_read b x = (if x < length b then Inr (b ! x) else Inl OutOfBounds)"

definition block_write :: "'a list \<Rightarrow> nat \<Rightarrow> 'a \<Rightarrow> fault + 'a list" where
  "block_write b x v = (if x < length b then Inr (b[x := v]) else Inl OutOfBounds)"

section \<open>The symbol encoding table: class ConvertChar\<close>

type_synonym uint8_t = "8 word"

definition NUM_DISTINCT_CHARS :: int where
  "NUM_DISTINCT_CHARS = 5"

definition AMBIG_CHAR :: int where
  "AMBIG_CHAR = 4"

text \<open>
  The class declares \<^verbatim>\<open>static uint8_t conversionTable[255]\<close>: 255 entries, indices 0 to 254.
  The header holds the declaration only; the definition is taken to have no
  initialiser. An object of static storage duration is zero-initialised before anything
  else runs, which is then the table's state before \<^verbatim>\<open>init()\<close>.
\<close>

definition conversionTable :: "uint8_t list" where
  "conversionTable = replicate 255 0"

text \<open>A character constant used as an array index, as in \<^verbatim>\<open>conversionTable['A']\<close>.\<close>

definition chr_index :: "char \<Rightarrow> nat" where
  "chr_index c = of_char c"

text \<open>The byte of a character constant passed where a \<^verbatim>\<open>uint8_t\<close> is expected.\<close>

definition chr_byte :: "char \<Rightarrow> uint8_t" where
  "chr_byte c = of_char c"

text \<open>
  \<^verbatim>\<open>static void init()\<close>: two assertions on the macros, then five stores. The table is the
  class's only state; \<open>ConvertChar_init\<close> takes it and returns it updated.
\<close>

definition ConvertChar_init :: "uint8_t list \<Rightarrow> fault + uint8_t list" where
  "ConvertChar_init tbl =
     (if NUM_DISTINCT_CHARS \<noteq> 5 then Inl AssertionFailed
      else if AMBIG_CHAR \<noteq> 4 then Inl AssertionFailed
      else bind_fault (block_write tbl (chr_index CHR ''A'') 0) (\<lambda>t1.
           bind_fault (block_write t1 (chr_index CHR ''C'') 1) (\<lambda>t2.
           bind_fault (block_write t2 (chr_index CHR ''T'') 2) (\<lambda>t3.
           bind_fault (block_write t3 (chr_index CHR ''G'') 3) (\<lambda>t4.
           block_write t4 (chr_index CHR ''N'') 4)))))"

text \<open>
  \<^verbatim>\<open>static inline uint8_t get(uint8_t input) { return conversionTable[input]; }\<close>
  The index is the unsigned value of the byte, 0 to 255.
\<close>

definition ConvertChar_get :: "uint8_t list \<Rightarrow> uint8_t \<Rightarrow> fault + uint8_t" where
  "ConvertChar_get tbl input =
     (if unat input < length tbl then Inr (tbl ! unat input) else Inl OutOfBounds)"

section \<open>The numeric context: struct Context\<close>

subsection \<open>Floating-point values\<close>

text \<open>
  A value of a binary floating-point format is a finite number \<open>(-1)^s * m * 2^e\<close>, an
  infinity or a NaN. A format is its precision \<open>p\<close> (the bits of the significand) and its
  largest exponent \<open>emax\<close>: \<^verbatim>\<open>double\<close> is binary64, \<^verbatim>\<open>float\<close> is binary32. The finite
  numbers of a format are those with \<open>m < 2^p\<close>, \<open>e \<ge> 2 - emax - p\<close> and magnitude below
  \<open>2^(emax + 1)\<close>.
\<close>

datatype fpval = Finite bool nat int | Infinity bool | NaN

record format =
  precision :: nat
  emax :: int

definition binary64 :: format where
  "binary64 = \<lparr>precision = 53, emax = 1023\<rparr>"

definition binary32 :: format where
  "binary32 = \<lparr>precision = 24, emax = 127\<rparr>"

text \<open>The number a value stands for; an infinity and a NaN stand for none.\<close>

definition valof :: "fpval \<Rightarrow> real option" where
  "valof v =
     (case v of
        Finite s m e \<Rightarrow>
          Some ((if s then - 1 else 1) *
                (if 0 \<le> e then real m * 2 ^ nat e else real m / 2 ^ nat (- e)))
      | Infinity s \<Rightarrow> None
      | NaN \<Rightarrow> None)"

text \<open>The number of bits of \<open>m\<close>: \<open>2^(bit_length m - 1) \<le> m < 2^(bit_length m)\<close> for \<open>m > 0\<close>.\<close>

fun bit_length :: "nat \<Rightarrow> nat" where
  "bit_length m = (if m = 0 then 0 else Suc (bit_length (m div 2)))"

declare bit_length.simps [simp del]

text \<open>\<open>m / 2^k\<close> rounded to the nearest integer, ties to even.\<close>

definition round_shift :: "nat \<Rightarrow> nat \<Rightarrow> nat" where
  "round_shift m k =
     (let qt = m div 2 ^ k; r = m mod 2 ^ k
      in if 2 * r < 2 ^ k then qt
         else if 2 ^ k < 2 * r then qt + 1
         else if even qt then qt else qt + 1)"

text \<open>
  The number \<open>(-1)^s * m * 2^e\<close> rounded into a format, to nearest and ties to even: the
  last place kept is \<open>p\<close> bits below the leading bit, and never below the smallest
  subnormal exponent \<open>2 - emax - p\<close>; a result of magnitude \<open>2^(emax + 1)\<close> or more
  overflows to an infinity. A number of the format is returned as it is.
\<close>

definition fp_round :: "format \<Rightarrow> bool \<Rightarrow> nat \<Rightarrow> int \<Rightarrow> fpval" where
  "fp_round fmt s m e =
     (if m = 0 then Finite s 0 0
      else
        let top = e + int (bit_length m);
            lsb = max (top - int (precision fmt)) (2 - emax fmt - int (precision fmt));
            m' = (if lsb \<le> e then m else round_shift m (nat (lsb - e)));
            e' = (if lsb \<le> e then e else lsb)
        in if emax fmt + 1 < e' + int (bit_length m') then Infinity s else Finite s m' e')"

text \<open>
  \<^verbatim>\<open>ldexp(v, n)\<close> and \<^verbatim>\<open>ldexpf(v, n)\<close>: \<open>v * 2^n\<close>, which is exact unless the result leaves the
  format's range.
\<close>

definition ldexp :: "format \<Rightarrow> fpval \<Rightarrow> int \<Rightarrow> fpval" where
  "ldexp fmt v n =
     (case v of Finite s m e \<Rightarrow> fp_round fmt s m (e + n) | Infinity s \<Rightarrow> v | NaN \<Rightarrow> v)"

text \<open>The conversion of an \<^verbatim>\<open>int\<close>, as in \<^verbatim>\<open>(double)x\<close>, and the unary minus.\<close>

definition fp_of_int :: "format \<Rightarrow> int \<Rightarrow> fpval" where
  "fp_of_int fmt k = fp_round fmt (k < 0) (nat \<bar>k\<bar>) 0"

definition fp_neg :: "fpval \<Rightarrow> fpval" where
  "fp_neg v = (case v of Finite s m e \<Rightarrow> Finite (\<not> s) m e | Infinity s \<Rightarrow> Infinity (\<not> s) | NaN \<Rightarrow> NaN)"

text \<open>The literals \<^verbatim>\<open>0.0\<close>, \<^verbatim>\<open>1.0\<close> (\<^verbatim>\<open>1.f\<close>) and \<^verbatim>\<open>10.0\<close> (\<^verbatim>\<open>10.f\<close>); each is a number of both formats.\<close>

definition fp_zero :: fpval where
  "fp_zero = Finite False 0 0"

definition fp_one :: fpval where
  "fp_one = Finite False 1 0"

definition fp_ten :: fpval where
  "fp_ten = Finite False 5 1"

text \<open>
  The operations whose results are rounded are parameters: the division of each
  precision and the library's \<^verbatim>\<open>pow\<close>, \<^verbatim>\<open>powf\<close>, \<^verbatim>\<open>log10\<close> and \<^verbatim>\<open>log10f\<close>. The C and C++
  standards do not fix the results of the four library functions.
\<close>

record libm =
  div_double :: "fpval \<Rightarrow> fpval \<Rightarrow> fpval"
  div_float :: "fpval \<Rightarrow> fpval \<Rightarrow> fpval"
  pow :: "fpval \<Rightarrow> fpval \<Rightarrow> fpval"
  powf :: "fpval \<Rightarrow> fpval \<Rightarrow> fpval"
  log10 :: "fpval \<Rightarrow> fpval"
  log10f :: "fpval \<Rightarrow> fpval"

subsection \<open>The two specialisations\<close>

text \<open>
  \<^verbatim>\<open>Context<double>\<close> and \<^verbatim>\<open>Context<float>\<close> have the same four data members, of type
  \<^verbatim>\<open>double\<close> in the one and \<^verbatim>\<open>float\<close> in the other.
\<close>

record Context =
  ph2pr :: "fpval list"
  INITIAL_CONSTANT :: fpval
  LOG10_INITIAL_CONSTANT :: fpval
  RESULT_THRESHOLD :: fpval

text \<open>
  \<^verbatim>\<open>for (int x = 0; x < 128; x++) ph2pr[x] = pow(10.0, -((double)x) / 10.0);\<close>
  and the same loop with \<^verbatim>\<open>powf\<close> on \<^verbatim>\<open>float\<close>, entered at \<open>x\<close>. \<open>pw\<close> and \<open>dv\<close> are the power
  function and the division of the precision. The minus applies to the converted
  \<open>x\<close>, before the division.
\<close>

function ph2pr_loop ::
  "format \<Rightarrow> (fpval \<Rightarrow> fpval \<Rightarrow> fpval) \<Rightarrow> (fpval \<Rightarrow> fpval \<Rightarrow> fpval) \<Rightarrow> nat \<Rightarrow> fpval list
    \<Rightarrow> fault + fpval list" where
  "ph2pr_loop fmt pw dv x a =
     (if x < 128
      then (case block_write a x (pw fp_ten (dv (fp_neg (fp_of_int fmt (int x))) fp_ten)) of
              Inl e \<Rightarrow> Inl e
            | Inr a' \<Rightarrow> ph2pr_loop fmt pw dv (Suc x) a')
      else Inr a)"
  by pat_completeness auto
termination
  by (relation "measure (\<lambda>(fmt, pw, dv, x, a). 128 - x)") auto

declare ph2pr_loop.simps [simp del]

text \<open>
  The constructors. A constructor runs on storage that holds indeterminate values:
  \<open>raw x\<close> is what element \<open>x\<close> of the member array \<^verbatim>\<open>ph2pr[128]\<close> holds before the loop.
  The second argument of \<^verbatim>\<open>ldexp\<close> is an \<^verbatim>\<open>int\<close>; the literals \<^verbatim>\<open>1020.0\<close>, \<^verbatim>\<open>120.f\<close> and
  \<^verbatim>\<open>-110.f\<close> convert to the integers 1020, 120 and -110.
\<close>

definition Context_double :: "libm \<Rightarrow> (nat \<Rightarrow> fpval) \<Rightarrow> fault + Context" where
  "Context_double M raw =
     bind_fault (ph2pr_loop binary64 (pow M) (div_double M) 0 (map raw [0..<128])) (\<lambda>a.
       let ic = ldexp binary64 fp_one 1020
       in Inr \<lparr>ph2pr = a, INITIAL_CONSTANT = ic,
               LOG10_INITIAL_CONSTANT = log10 M ic,
               RESULT_THRESHOLD = fp_zero\<rparr>)"

definition Context_float :: "libm \<Rightarrow> (nat \<Rightarrow> fpval) \<Rightarrow> fault + Context" where
  "Context_float M raw =
     bind_fault (ph2pr_loop binary32 (powf M) (div_float M) 0 (map raw [0..<128])) (\<lambda>a.
       let ic = ldexp binary32 fp_one 120
       in Inr \<lparr>ph2pr = a, INITIAL_CONSTANT = ic,
               LOG10_INITIAL_CONSTANT = log10f M ic,
               RESULT_THRESHOLD = ldexp binary32 fp_one (- 110)\<rparr>)"

section \<open>Test case ingestion: read_testcase\<close>

subsection \<open>Characters, blocks and C strings\<close>

text \<open>
  A \<^verbatim>\<open>char\<close> is one byte. On x86 plain \<^verbatim>\<open>char\<close> is signed, so the conversion to
  \<^verbatim>\<open>int\<close> in \<^verbatim>\<open>tc->irs[x] = tc->rs[x]\<close> sign-extends: bytes 0 to 127 keep their value,
  bytes 128 to 255 become negative.
\<close>

definition char_to_int :: "char \<Rightarrow> int" where
  "char_to_int ch = sint (of_char ch :: 8 word)"

definition NUL :: char where
  "NUL = CHR 0x00"

definition newline :: char where
  "newline = CHR 0x0A"

text \<open>\<^verbatim>\<open>isspace\<close> in the C locale: space, and the control characters 9 to 13.\<close>

definition isspace :: "char \<Rightarrow> bool" where
  "isspace ch = (ch = CHR '' '' \<or> ch = CHR 0x09 \<or> ch = CHR 0x0A \<or> ch = CHR 0x0B
      \<or> ch = CHR 0x0C \<or> ch = CHR 0x0D)"

text \<open>The string a character block holds: its bytes before the first NUL.\<close>

definition cstring :: "string \<Rightarrow> string" where
  "cstring b = takeWhile (\<lambda>ch. ch \<noteq> NUL) b"

text \<open>\<^verbatim>\<open>strlen\<close> runs to the first NUL; a block without one is read past its end.\<close>

definition strlen :: "string \<Rightarrow> fault + nat" where
  "strlen b = (if NUL \<in> set b then Inr (length (cstring b)) else Inl OutOfBounds)"

text \<open>
  Storing a string and its terminating NUL at the start of a block, as \<^verbatim>\<open>%s\<close> does. The
  cells behind the terminator keep what they held.
\<close>

definition store_string :: "string \<Rightarrow> string \<Rightarrow> fault + string" where
  "store_string b s =
     (if length s < length b then Inr (s @ NUL # drop (Suc (length s)) b)
      else Inl OutOfBounds)"

subsection \<open>The environment of the call\<close>

text \<open>
  \<^verbatim>\<open>int normalize(char c)\<close> is declared in the header and defined elsewhere: it is a
  parameter. \<^verbatim>\<open>malloc\<close> returns a block whose cells hold indeterminate values:
  \<open>junk_char E k x\<close> is the byte in cell \<open>x\<close> of the \<open>k\<close>-th character block the call
  allocates, \<open>junk_int E k x\<close> the same for blocks of \<^verbatim>\<open>int\<close>.

  The call is \<^verbatim>\<open>getline(&line, (size_t *) &size, stdin)\<close> with \<^verbatim>\<open>int size = 0\<close>: the library
  stores a \<^verbatim>\<open>size_t\<close> of eight bytes through a pointer to an \<^verbatim>\<open>int\<close> of four. What
  \<^verbatim>\<open>size\<close> holds afterwards follows from the library's allocation and from the layout
  of the frame, not from the source, so it is a parameter: \<open>getline_size E line\<close> is
  the value of \<^verbatim>\<open>size\<close> after the line \<open>line\<close> was read. Nothing relates it to the length
  of the line. The store is taken to leave the other locals as they are, allocation
  to succeed, and a line to be shorter than \<open>2^31\<close> bytes (the lengths are stored in
  \<^verbatim>\<open>int\<close>).
\<close>

record env =
  normalize :: "char \<Rightarrow> int"
  getline_size :: "string \<Rightarrow> int"
  junk_char :: "nat \<Rightarrow> nat \<Rightarrow> char"
  junk_int :: "nat \<Rightarrow> nat \<Rightarrow> int"

text \<open>
  \<^verbatim>\<open>malloc(n)\<close> for a block of \<open>n\<close> cells, the \<open>k\<close>-th of its kind in the call. When
  \<^verbatim>\<open>size\<close> is 0 or negative the blocks have no cells, and every access to them is out of
  bounds.
\<close>

definition malloc_chars :: "env \<Rightarrow> nat \<Rightarrow> nat \<Rightarrow> string" where
  "malloc_chars E k n = map (junk_char E k) [0..<n]"

definition malloc_ints :: "env \<Rightarrow> nat \<Rightarrow> nat \<Rightarrow> int list" where
  "malloc_ints E k n = map (junk_int E k) [0..<n]"

text \<open>
  Modelled from the spec: \<^verbatim>\<open>normalize\<close> has no definition in the header; the spec describes
  it as a phred-like ASCII offset decode under which \<^verbatim>\<open>!\<close> decodes to 0. This instance is
  used for concrete runs only; every theorem about \<open>read_testcase\<close> holds for all
  environments. In the environment of the concrete runs \<^verbatim>\<open>size\<close> is 120 after every
  line.
\<close>

definition normalize_offset33 :: "char \<Rightarrow> int" where
  "normalize_offset33 ch = char_to_int ch - 33"

definition env0 :: env where
  "env0 = \<lparr>normalize = normalize_offset33, getline_size = (\<lambda>line. 120),
            junk_char = (\<lambda>k x. CHR ''?''), junk_int = (\<lambda>k x. - 1)\<rparr>"

subsection \<open>getline and sscanf\<close>

text \<open>
  Standard input is the list of bytes not yet read. \<^verbatim>\<open>getline\<close> returns -1 when there
  is none (\<open>None\<close>); otherwise it takes the bytes up to and including the first newline,
  or all of them when there is no newline.
\<close>

definition getline :: "string \<Rightarrow> (string \<times> string) option" where
  "getline inp =
     (if inp = [] then None
      else (case dropWhile (\<lambda>ch. ch \<noteq> newline) inp of
              [] \<Rightarrow> Some (inp, [])
            | nl # rest \<Rightarrow> Some (takeWhile (\<lambda>ch. ch \<noteq> newline) inp @ [nl], rest)))"

text \<open>
  One \<^verbatim>\<open>%s\<close> conversion: skip white space, then take the longest run of bytes that are
  not white space. \<open>None\<close> is an input failure: the input ended first.
\<close>

definition scan_s :: "string \<Rightarrow> (string \<times> string) option" where
  "scan_s inp =
     (let s = dropWhile isspace inp
      in if s = [] then None
         else Some (takeWhile (\<lambda>ch. \<not> isspace ch) s, dropWhile (\<lambda>ch. \<not> isspace ch) s))"

text \<open>
  The conversions of \<^verbatim>\<open>"%s %s %s %s %s %s\n"\<close>, one per destination block, in order. White
  space in the format matches any white space, which the next \<^verbatim>\<open>%s\<close> skips anyway. The
  result is the number of strings stored and the destination blocks.
\<close>

fun sscanf_strings :: "string \<Rightarrow> string list \<Rightarrow> fault + (nat \<times> string list)" where
  "sscanf_strings inp [] = Inr (0, [])"
| "sscanf_strings inp (b # bs) =
     (case scan_s inp of
        None \<Rightarrow> Inr (0, b # bs)
      | Some (tok, rest) \<Rightarrow>
          bind_fault (store_string b tok) (\<lambda>b'.
          bind_fault (sscanf_strings rest bs) (\<lambda>(n, bs'). Inr (Suc n, b' # bs'))))"

definition EOF :: int where
  "EOF = - 1"

text \<open>
  \<^verbatim>\<open>sscanf\<close> returns the number of items assigned, or \<^verbatim>\<open>EOF\<close> when the input ends before
  the first conversion.
\<close>

definition sscanf :: "string \<Rightarrow> string list \<Rightarrow> fault + (int \<times> string list)" where
  "sscanf inp bs =
     bind_fault (sscanf_strings inp bs) (\<lambda>(n, bs').
       Inr (if n = 0 then EOF else int n, bs'))"

text \<open>The tokens the six conversions find in a line: at most six.\<close>

fun scan_tokens :: "nat \<Rightarrow> string \<Rightarrow> string list" where
  "scan_tokens 0 inp = []"
| "scan_tokens (Suc n) inp =
     (case scan_s inp of None \<Rightarrow> [] | Some (tok, rest) \<Rightarrow> tok # scan_tokens n rest)"

subsection \<open>The test case and the two loops\<close>

record testcase =
  rslen :: int
  haplen :: int
  q :: "int list"
  i :: "int list"
  d :: "int list"
  c :: "int list"
  hap :: string
  rs :: string
  ihap :: "int list"
  irs :: "int list"

text \<open>
  The body of the first loop at position \<open>x\<close>. \<open>qb\<close>, \<open>ib\<close>, \<open>db\<close>, \<open>cb\<close> are the local
  blocks \<^verbatim>\<open>q\<close>, \<^verbatim>\<open>i\<close>, \<^verbatim>\<open>d\<close>, \<^verbatim>\<open>c\<close> that hold the four score strings.
\<close>

definition score_step ::
  "(char \<Rightarrow> int) \<Rightarrow> string \<Rightarrow> string \<Rightarrow> string \<Rightarrow> string \<Rightarrow> nat \<Rightarrow> testcase \<Rightarrow> fault + testcase" where
  "score_step nrm qb ib db cb x tc =
     bind_fault (block_read qb x) (\<lambda>chq.
     bind_fault (block_read ib x) (\<lambda>chi.
     bind_fault (block_read db x) (\<lambda>chd.
     bind_fault (block_read cb x) (\<lambda>chc.
     let vq = nrm chq; vi = nrm chi; vd = nrm chd; vc = nrm chc in
     bind_fault (block_write (q tc) x (if vq < 6 then 6 else vq)) (\<lambda>q'.
     bind_fault (block_write (i tc) x vi) (\<lambda>i'.
     bind_fault (block_write (d tc) x vd) (\<lambda>d'.
     bind_fault (block_write (c tc) x vc) (\<lambda>c'.
     bind_fault (block_read (rs tc) x) (\<lambda>chr.
     bind_fault (block_write (irs tc) x (char_to_int chr)) (\<lambda>irs'.
       Inr (tc\<lparr>q := q', i := i', d := d', c := c', irs := irs'\<rparr>)))))))))))"

lemma score_step_rslen:
  assumes "score_step nrm qb ib db cb x tc = Inr tc'"
  shows "rslen tc' = rslen tc"
  using assms
  by (auto simp: score_step_def bind_fault_def Let_def split: sum.splits)

text \<open>\<^verbatim>\<open>for (x = 0; x < tc->rslen; x++) { ... }\<close>, entered at \<open>x\<close>.\<close>

function score_loop ::
  "(char \<Rightarrow> int) \<Rightarrow> string \<Rightarrow> string \<Rightarrow> string \<Rightarrow> string \<Rightarrow> nat \<Rightarrow> testcase \<Rightarrow> fault + testcase" where
  "score_loop nrm qb ib db cb x tc =
     (if int x < rslen tc
      then (case score_step nrm qb ib db cb x tc of
              Inl e \<Rightarrow> Inl e
            | Inr tc' \<Rightarrow> score_loop nrm qb ib db cb (Suc x) tc')
      else Inr tc)"
  by pat_completeness auto
termination
  by (relation "measure (\<lambda>(nrm, qb, ib, db, cb, x, tc). nat (rslen tc) - x)")
    (auto dest: score_step_rslen)

declare score_loop.simps [simp del]

text \<open>The body of the second loop: \<^verbatim>\<open>tc->ihap[x] = tc->hap[x]\<close>.\<close>

definition hap_step :: "nat \<Rightarrow> testcase \<Rightarrow> fault + testcase" where
  "hap_step x tc =
     bind_fault (block_read (hap tc) x) (\<lambda>chh.
     bind_fault (block_write (ihap tc) x (char_to_int chh)) (\<lambda>ihap'.
       Inr (tc\<lparr>ihap := ihap'\<rparr>)))"

lemma hap_step_haplen:
  assumes "hap_step x tc = Inr tc'"
  shows "haplen tc' = haplen tc"
  using assms
  by (auto simp: hap_step_def bind_fault_def split: sum.splits)

text \<open>\<^verbatim>\<open>for (x = 0; x < tc->haplen; x++) tc->ihap[x] = tc->hap[x];\<close>, entered at \<open>x\<close>.\<close>

function hap_loop :: "nat \<Rightarrow> testcase \<Rightarrow> fault + testcase" where
  "hap_loop x tc =
     (if int x < haplen tc
      then (case hap_step x tc of
              Inl e \<Rightarrow> Inl e
            | Inr tc' \<Rightarrow> hap_loop (Suc x) tc')
      else Inr tc)"
  by pat_completeness auto
termination
  by (relation "measure (\<lambda>(x, tc). nat (haplen tc) - x)")
    (auto dest: hap_step_haplen)

declare hap_loop.simps [simp del]

subsection \<open>read_testcase\<close>

text \<open>
  The function takes the caller's test case and standard input, and returns its
  \<^verbatim>\<open>int\<close> result, the test case as it leaves it and the input that remains. The six
  character blocks are allocated in the order \<^verbatim>\<open>tc->hap\<close>, \<^verbatim>\<open>tc->rs\<close>, \<^verbatim>\<open>q\<close>, \<^verbatim>\<open>i\<close>,
  \<^verbatim>\<open>d\<close>, \<^verbatim>\<open>c\<close>, each of \<^verbatim>\<open>size\<close> bytes. \<^verbatim>\<open>sscanf\<close> reads the line as a C string, so
  up to its first NUL, and its \<^verbatim>\<open>%s\<close> has no width: a token of \<^verbatim>\<open>size\<close> bytes or more is
  stored past the end of its block, which is the fault \<open>OutOfBounds\<close>. The blocks
  released by \<^verbatim>\<open>free\<close> are local and are not part of the result.
\<close>

definition read_testcase :: "env \<Rightarrow> testcase \<Rightarrow> string \<Rightarrow> fault + (int \<times> testcase \<times> string)" where
  "read_testcase E tc inp =
     (case getline inp of
        None \<Rightarrow> Inr (- 1, tc, inp)
      | Some (line, rest) \<Rightarrow>
          (let sz = nat (getline_size E line);
               bs = map (\<lambda>k. malloc_chars E k sz) [0..<6];
               tc1 = tc\<lparr>ihap := malloc_ints E 0 sz, irs := malloc_ints E 1 sz\<rparr>
           in bind_fault (sscanf (cstring line) bs) (\<lambda>(n, bs').
              let tc2 = tc1\<lparr>hap := bs' ! 0, rs := bs' ! 1\<rparr>;
                  qb = bs' ! 2; ib = bs' ! 3; db = bs' ! 4; cb = bs' ! 5
              in if n \<noteq> 6 then Inr (- 1, tc2, rest)
                 else
                   bind_fault (strlen (hap tc2)) (\<lambda>hl.
                   bind_fault (strlen (rs tc2)) (\<lambda>rl.
                   let tc3 = tc2\<lparr>haplen := int hl, rslen := int rl\<rparr>;
                       tc4 = tc3\<lparr>q := malloc_ints E 2 (nat (rslen tc3)),
                                 i := malloc_ints E 3 (nat (rslen tc3)),
                                 d := malloc_ints E 4 (nat (rslen tc3)),
                                 c := malloc_ints E 5 (nat (rslen tc3)),
                                 ihap := malloc_ints E 6 (nat (haplen tc3)),
                                 irs := malloc_ints E 7 (nat (rslen tc3))\<rparr>
                   in bind_fault (score_loop (normalize E) qb ib db cb 0 tc4) (\<lambda>tc5.
                      bind_fault (hap_loop 0 tc5) (\<lambda>tc6.
                        Inr (0, tc6, rest))))))))"

text \<open>A test case as a caller may pass it before the first call: nothing allocated.\<close>

definition tc0 :: testcase where
  "tc0 = \<lparr>rslen = 0, haplen = 0, q = [], i = [], d = [], c = [],
           hap = [], rs = [], ihap = [], irs = []\<rparr>"

subsection \<open>What a call leaves behind\<close>

text \<open>
  The blocks after the conversions, when no store leaves its block: the \<open>k\<close>-th block
  holds the \<open>k\<close>-th token and its NUL, then what \<^verbatim>\<open>malloc\<close> left there; a block with no
  token is untouched.
\<close>

fun store_tokens :: "string list \<Rightarrow> string list \<Rightarrow> string list" where
  "store_tokens (t # ts) (b # bs) = (t @ NUL # drop (Suc (length t)) b) # store_tokens ts bs"
| "store_tokens [] bs = bs"
| "store_tokens ts [] = []"

text \<open>
  For a line: the size of the blocks, its tokens, whether every token and its NUL fit a
  block, and the six blocks as \<^verbatim>\<open>sscanf\<close> leaves them when they do
  (\<open>read_testcase_malformed\<close> and \<open>read_testcase_six\<close> prove that these are the blocks
  of the call; \<open>read_testcase_overrun\<close> that the call faults when a token does not
  fit).
\<close>

definition block_size :: "env \<Rightarrow> string \<Rightarrow> nat" where
  "block_size E line = nat (getline_size E line)"

definition line_tokens :: "string \<Rightarrow> string list" where
  "line_tokens line = scan_tokens 6 (cstring line)"

definition tokens_fit :: "env \<Rightarrow> string \<Rightarrow> bool" where
  "tokens_fit E line = list_all (\<lambda>t. length t < block_size E line) (line_tokens line)"

definition scanned_blocks :: "env \<Rightarrow> string \<Rightarrow> string list" where
  "scanned_blocks E line =
     store_tokens (line_tokens line) (map (\<lambda>k. malloc_chars E k (block_size E line)) [0..<6])"

text \<open>What the caller sees of a call: the value returned, and the test case.\<close>

definition returned :: "fault + (int \<times> testcase \<times> string) \<Rightarrow> int option" where
  "returned r = (case r of Inl e \<Rightarrow> None | Inr (n, tc, rest) \<Rightarrow> Some n)"

definition testcase_left :: "fault + (int \<times> testcase \<times> string) \<Rightarrow> testcase option" where
  "testcase_left r = (case r of Inl e \<Rightarrow> None | Inr (n, tc, rest) \<Rightarrow> Some tc)"

text \<open>
  Three lines of input used for concrete runs: a record whose quality and insertion
  strings hold values on both sides of 6, the record of the spec's round-trip
  example, and that record with a first haplotype byte above 127.
\<close>

definition line1 :: string where
  "line1 = ''ACG GTA 5#I #5I !!! +++''"

definition line2 :: string where
  "line2 = ''AC GT !! !! !! !!''"

definition line3 :: string where
  "line3 = CHR 0xC1 # ''C GT !! !! !! !!''"

section \<open>A fact about loops that fill an array\<close>

lemma take_update_upt:
  assumes "x < length l" "x < n"
  shows "take (Suc x) (l[x := f x]) @ map f [Suc x..<n] = take x l @ map f [x..<n]"
proof -
  have "take (Suc x) (l[x := f x]) = take x l @ [f x]"
    using assms(1) by (simp add: take_Suc_conv_app_nth)
  moreover have "[x..<n] = x # [Suc x..<n]"
    using assms(2) by (simp add: upt_conv_Cons)
  ultimately show ?thesis by simp
qed

section \<open>Properties of the symbol encoding table\<close>

lemma ConvertChar_init_eq:
  assumes "length tbl = 255"
  shows "ConvertChar_init tbl = Inr (tbl[65 := 0, 67 := 1, 84 := 2, 71 := 3, 78 := 4])"
  using assms
  by (simp add: ConvertChar_init_def NUM_DISTINCT_CHARS_def AMBIG_CHAR_def bind_fault_def
      block_write_def chr_index_def)

lemma ConvertChar_init_length:
  assumes "ConvertChar_init tbl = Inr T"
  shows "length T = length tbl"
  using assms
  by (auto simp: ConvertChar_init_def bind_fault_def block_write_def
      split: if_splits sum.splits)

lemma ConvertChar_get_in_bounds:
  assumes "unat b < length tbl"
  shows "ConvertChar_get tbl b = Inr (tbl ! unat b)"
  using assms by (simp add: ConvertChar_get_def)

text \<open>
  C9. After \<^verbatim>\<open>init()\<close> the lookups of \<^verbatim>\<open>A\<close>, \<^verbatim>\<open>C\<close>, \<^verbatim>\<open>T\<close>, \<^verbatim>\<open>G\<close>, \<^verbatim>\<open>N\<close> return 0, 1, 2, 3, 4; the
  five codes are pairwise distinct and the code of \<^verbatim>\<open>N\<close> is \<^verbatim>\<open>AMBIG_CHAR\<close>. This holds
  whatever the 255 entries held before, so also from the zero table and when \<^verbatim>\<open>init()\<close>
  runs again.
\<close>

theorem ConvertChar_codes_after_init:
  assumes "length tbl = 255"
  shows "\<exists>T. ConvertChar_init tbl = Inr T
      \<and> ConvertChar_get T (chr_byte CHR ''A'') = Inr 0
      \<and> ConvertChar_get T (chr_byte CHR ''C'') = Inr 1
      \<and> ConvertChar_get T (chr_byte CHR ''T'') = Inr 2
      \<and> ConvertChar_get T (chr_byte CHR ''G'') = Inr 3
      \<and> ConvertChar_get T (chr_byte CHR ''N'') = Inr 4
      \<and> ConvertChar_get T (chr_byte CHR ''N'') = Inr (word_of_int AMBIG_CHAR)
      \<and> distinct (map (ConvertChar_get T \<circ> chr_byte) ''ACTGN'')"
  using assms
  by (simp add: ConvertChar_init_eq ConvertChar_get_def chr_byte_def AMBIG_CHAR_def)

text \<open>C9 at the table as static initialisation leaves it.\<close>

theorem ConvertChar_codes_after_init_witness:
  "length conversionTable = 255 \<and> (\<exists>T. ConvertChar_init conversionTable = Inr T
      \<and> ConvertChar_get T (chr_byte CHR ''A'') = Inr 0
      \<and> ConvertChar_get T (chr_byte CHR ''C'') = Inr 1
      \<and> ConvertChar_get T (chr_byte CHR ''T'') = Inr 2
      \<and> ConvertChar_get T (chr_byte CHR ''G'') = Inr 3
      \<and> ConvertChar_get T (chr_byte CHR ''N'') = Inr 4)"
proof -
  have len: "length conversionTable = 255"
    by (simp add: conversionTable_def)
  from ConvertChar_codes_after_init [OF len] len show ?thesis
    by auto
qed

text \<open>
  C7. The claim is that \<^verbatim>\<open>get(b)\<close> indexes inside the table for every byte \<open>b\<close> from 0 to
  255. The table has 255 entries, so the byte 255 indexes one past its end: after
  \<^verbatim>\<open>init()\<close>, \<^verbatim>\<open>get(255)\<close> is an access out of bounds.
\<close>

theorem ConvertChar_get_255_out_of_bounds:
  "\<exists>T. ConvertChar_init conversionTable = Inr T \<and> ConvertChar_get T 255 = Inl OutOfBounds"
  by (simp add: ConvertChar_init_eq conversionTable_def ConvertChar_get_def)

text \<open>Every byte below 255 is inside the table.\<close>

lemma ConvertChar_get_below_255:
  assumes "length tbl = 255" "unat b < 255"
  shows "\<exists>v. ConvertChar_get tbl b = Inr v"
  using assms by (simp add: ConvertChar_get_def)

lemma ConvertChar_codes_AC_GT:
  "\<exists>Tb. ConvertChar_init conversionTable = Inr Tb
     \<and> map (ConvertChar_get Tb \<circ> chr_byte) ''AC'' = [Inr 0, Inr 1]
     \<and> map (ConvertChar_get Tb \<circ> chr_byte) ''GT'' = [Inr 3, Inr 2]"
  by (simp add: ConvertChar_init_eq conversionTable_def ConvertChar_get_def chr_byte_def)

lemma unpopulated_nth:
  fixes b :: uint8_t
  assumes "unat b < 255" "b \<notin> {65, 67, 84, 71, 78}"
  shows "(replicate 255 (0::uint8_t))[65 := 0, 67 := 1, 84 := 2, 71 := 3, 78 := 4] ! unat b = 0"
proof -
  have ne: "unat b \<noteq> 65" "unat b \<noteq> 67" "unat b \<noteq> 84" "unat b \<noteq> 71" "unat b \<noteq> 78"
    using assms(2) by (simp_all add: word_unat_eq_iff)
  show ?thesis using assms(1) ne by (simp add: nth_list_update)
qed

text \<open>
  C10. After \<^verbatim>\<open>init()\<close> on the zero-initialised table, every byte below 255 other than
  \<^verbatim>\<open>A\<close>, \<^verbatim>\<open>C\<close>, \<^verbatim>\<open>T\<close>, \<^verbatim>\<open>G\<close>, \<^verbatim>\<open>N\<close> looks up 0, which is also what \<^verbatim>\<open>A\<close> looks up.
\<close>

theorem ConvertChar_unpopulated_zero:
  "\<exists>T. ConvertChar_init conversionTable = Inr T
     \<and> (\<forall>b. unat b < 255 \<and> b \<notin> chr_byte ` set ''ACTGN'' \<longrightarrow>
            ConvertChar_get T b = Inr 0
          \<and> ConvertChar_get T b = ConvertChar_get T (chr_byte CHR ''A''))"
  using unpopulated_nth
  by (simp add: ConvertChar_init_eq conversionTable_def ConvertChar_get_def chr_byte_def)

text \<open>C10 at the byte of \<^verbatim>\<open>B\<close>.\<close>

theorem ConvertChar_unpopulated_zero_witness:
  "\<exists>T. ConvertChar_init conversionTable = Inr T
     \<and> unat (chr_byte CHR ''B'') < 255 \<and> chr_byte CHR ''B'' \<notin> chr_byte ` set ''ACTGN''
     \<and> ConvertChar_get T (chr_byte CHR ''B'') = Inr 0
     \<and> ConvertChar_get T (chr_byte CHR ''B'') = ConvertChar_get T (chr_byte CHR ''A'')"
proof -
  have pre: "unat (chr_byte CHR ''B'') < 255 \<and> chr_byte CHR ''B'' \<notin> chr_byte ` set ''ACTGN''"
    by (simp add: chr_byte_def)
  from ConvertChar_unpopulated_zero obtain T where
    T: "ConvertChar_init conversionTable = Inr T"
    and all: "\<forall>b. unat b < 255 \<and> b \<notin> chr_byte ` set ''ACTGN'' \<longrightarrow>
            ConvertChar_get T b = Inr 0
          \<and> ConvertChar_get T b = ConvertChar_get T (chr_byte CHR ''A'')"
    by blast
  from all pre have "ConvertChar_get T (chr_byte CHR ''B'') = Inr 0
     \<and> ConvertChar_get T (chr_byte CHR ''B'') = ConvertChar_get T (chr_byte CHR ''A'')"
    by blast
  with T pre show ?thesis by blast
qed

section \<open>Properties of the numeric context\<close>

lemma ph2pr_loop_eq:
  assumes "length a = 128" "x \<le> 128"
  shows "ph2pr_loop fmt pw dv x a =
    Inr (take x a @ map (\<lambda>y. pw fp_ten (dv (fp_neg (fp_of_int fmt (int y))) fp_ten)) [x..<128])"
  using assms
proof (induction "128 - x" arbitrary: x a)
  case 0
  then have "x = 128" by simp
  with 0 show ?case
    by (subst ph2pr_loop.simps) simp
next
  case (Suc k)
  from Suc.hyps(2) have lt: "x < 128" by linarith
  let ?f = "\<lambda>y. pw fp_ten (dv (fp_neg (fp_of_int fmt (int y))) fp_ten)"
  have k: "k = 128 - Suc x" using Suc.hyps(2) by simp
  have "ph2pr_loop fmt pw dv x a = ph2pr_loop fmt pw dv (Suc x) (a[x := ?f x])"
    using lt Suc.prems by (subst ph2pr_loop.simps) (simp add: block_write_def)
  also have "\<dots> = Inr (take (Suc x) (a[x := ?f x]) @ map ?f [Suc x..<128])"
    using lt Suc.prems by (intro Suc.hyps(1) [OF k]) simp_all
  also have "take (Suc x) (a[x := ?f x]) @ map ?f [Suc x..<128] = take x a @ map ?f [x..<128]"
    using lt Suc.prems by (intro take_update_upt) simp_all
  finally show ?case .
qed

lemma bit_length_1: "bit_length (Suc 0) = Suc 0"
  by (simp add: bit_length.simps [of "Suc 0"] bit_length.simps [of 0])

lemma ldexp_one:
  assumes "2 - emax fmt - int (precision fmt) \<le> n" "n \<le> emax fmt" "1 \<le> precision fmt"
  shows "ldexp fmt fp_one n = Finite False 1 n"
  using assms
  by (simp add: ldexp_def fp_one_def fp_round_def bit_length_1 Let_def max_def)

lemma Context_double_eq:
  "Context_double M raw =
    Inr \<lparr>ph2pr = map (\<lambda>y. pow M fp_ten (div_double M (fp_neg (fp_of_int binary64 (int y))) fp_ten)) [0..<128],
         INITIAL_CONSTANT = Finite False 1 1020,
         LOG10_INITIAL_CONSTANT = log10 M (Finite False 1 1020),
         RESULT_THRESHOLD = Finite False 0 0\<rparr>"
proof -
  have "ldexp binary64 fp_one 1020 = Finite False 1 1020"
    by (rule ldexp_one) (simp_all add: binary64_def)
  then show ?thesis
    by (simp add: Context_double_def ph2pr_loop_eq bind_fault_def fp_zero_def Let_def)
qed

lemma Context_float_eq:
  "Context_float M raw =
    Inr \<lparr>ph2pr = map (\<lambda>y. powf M fp_ten (div_float M (fp_neg (fp_of_int binary32 (int y))) fp_ten)) [0..<128],
         INITIAL_CONSTANT = Finite False 1 120,
         LOG10_INITIAL_CONSTANT = log10f M (Finite False 1 120),
         RESULT_THRESHOLD = Finite False 1 (- 110)\<rparr>"
proof -
  have "ldexp binary32 fp_one 120 = Finite False 1 120"
    by (rule ldexp_one) (simp_all add: binary32_def)
  moreover have "ldexp binary32 fp_one (- 110) = Finite False 1 (- 110)"
    by (rule ldexp_one) (simp_all add: binary32_def)
  ultimately show ?thesis
    by (simp add: Context_float_def ph2pr_loop_eq bind_fault_def Let_def)
qed

text \<open>
  The table holds, at every index \<open>x\<close> below 128, the precision's power function
  applied to ten and to the precision's quotient of \<open>-x\<close> by ten; the initial scale is
  \<open>2^1020\<close> in double and \<open>2^120\<close> in single precision, and its stored logarithm is the
  precision's \<^verbatim>\<open>log10\<close> of it. What the power and the logarithm round to is the
  library's.
\<close>

lemma Context_ph2pr_nth:
  assumes "x < 128"
  shows "\<exists>C. Context_double M raw = Inr C \<and> length (ph2pr C) = 128
      \<and> ph2pr C ! x = pow M fp_ten (div_double M (fp_neg (fp_of_int binary64 (int x))) fp_ten)"
    and "\<exists>C. Context_float M raw = Inr C \<and> length (ph2pr C) = 128
      \<and> ph2pr C ! x = powf M fp_ten (div_float M (fp_neg (fp_of_int binary32 (int x))) fp_ten)"
  using assms by (simp_all add: Context_double_eq Context_float_eq)

lemma Context_initial_constant:
  "(\<exists>C. Context_double M raw = Inr C \<and> valof (INITIAL_CONSTANT C) = Some (2 ^ 1020)
        \<and> LOG10_INITIAL_CONSTANT C = log10 M (INITIAL_CONSTANT C))
   \<and> (\<exists>C. Context_float M raw' = Inr C \<and> valof (INITIAL_CONSTANT C) = Some (2 ^ 120)
        \<and> LOG10_INITIAL_CONSTANT C = log10f M (INITIAL_CONSTANT C))"
  by (simp add: Context_double_eq Context_float_eq valof_def)

text \<open>
  C6. The result floor of the double-precision context is exactly 0; that of the
  single-precision context is exactly \<open>2^-110\<close>, a positive number.
\<close>

theorem Context_result_threshold:
  "(\<exists>C. Context_double M raw = Inr C \<and> valof (RESULT_THRESHOLD C) = Some 0)
   \<and> (\<exists>C. Context_float M raw' = Inr C
          \<and> valof (RESULT_THRESHOLD C) = Some (1 / 2 ^ 110)
          \<and> (\<exists>r. valof (RESULT_THRESHOLD C) = Some r \<and> 0 < r))"
proof (intro conjI)
  show "\<exists>C. Context_double M raw = Inr C \<and> valof (RESULT_THRESHOLD C) = Some 0"
    by (simp add: Context_double_eq valof_def)
next
  let ?C = "\<lparr>ph2pr = map (\<lambda>y. powf M fp_ten (div_float M (fp_neg (fp_of_int binary32 (int y))) fp_ten)) [0..<128],
         INITIAL_CONSTANT = Finite False 1 120,
         LOG10_INITIAL_CONSTANT = log10f M (Finite False 1 120),
         RESULT_THRESHOLD = Finite False 1 (- 110)\<rparr>"
  have v: "valof (Finite False 1 (- 110)) = Some (1 / 2 ^ 110)"
    by (simp add: valof_def)
  have pos: "(0::real) < 1 / 2 ^ 110"
    by simp
  have "Context_float M raw' = Inr ?C"
    by (rule Context_float_eq)
  moreover have "RESULT_THRESHOLD ?C = Finite False 1 (- 110)"
    by simp
  ultimately show "\<exists>C. Context_float M raw' = Inr C
          \<and> valof (RESULT_THRESHOLD C) = Some (1 / 2 ^ 110)
          \<and> (\<exists>r. valof (RESULT_THRESHOLD C) = Some r \<and> 0 < r)"
    using v pos by metis
qed

section \<open>Properties of read_testcase\<close>

subsection \<open>Scanning\<close>

lemma isspace_NUL: "\<not> isspace NUL"
  by (simp add: isspace_def NUL_def)

lemma scan_s_Some:
  assumes "scan_s inp = Some (tok, rest)"
  shows "tok \<noteq> [] \<and> length tok + length rest \<le> length inp
    \<and> set tok \<subseteq> set inp \<and> set rest \<subseteq> set inp"
proof -
  let ?s = "dropWhile isspace inp"
  from assms have ne: "?s \<noteq> []"
    and tok: "tok = takeWhile (\<lambda>ch. \<not> isspace ch) ?s"
    and rest: "rest = dropWhile (\<lambda>ch. \<not> isspace ch) ?s"
    by (auto simp: scan_s_def Let_def split: if_splits)
  from ne have "\<not> isspace (hd ?s)"
    by (rule hd_dropWhile)
  with ne have "tok \<noteq> []"
    unfolding tok by (cases ?s) auto
  moreover have "length tok + length rest = length ?s"
    unfolding tok rest by (metis length_append takeWhile_dropWhile_id)
  moreover have "length ?s \<le> length inp"
    by (rule length_dropWhile_le)
  moreover have "set tok \<subseteq> set inp"
    unfolding tok by (meson set_takeWhileD set_dropWhileD subsetI)
  moreover have "set rest \<subseteq> set inp"
    unfolding rest by (meson set_dropWhileD subsetI)
  ultimately show ?thesis by simp
qed

lemma scan_tokens_length: "length (scan_tokens n inp) \<le> n"
  by (induction n arbitrary: inp) (auto split: option.splits)

lemma scan_tokens_set:
  assumes "tok \<in> set (scan_tokens n inp)"
  shows "set tok \<subseteq> set inp \<and> length tok \<le> length inp \<and> tok \<noteq> []"
  using assms
proof (induction n arbitrary: inp)
  case 0
  then show ?case by simp
next
  case (Suc n)
  show ?case
  proof (cases "scan_s inp")
    case None
    with Suc.prems show ?thesis by simp
  next
    case (Some p)
    obtain t r where p: "p = (t, r)" by (cases p)
    from Some p have s: "scan_s inp = Some (t, r)" by simp
    note f = scan_s_Some [OF s]
    from Suc.prems s have "tok = t \<or> tok \<in> set (scan_tokens n r)" by simp
    then show ?thesis
    proof
      assume "tok = t"
      with f show ?thesis by auto
    next
      assume "tok \<in> set (scan_tokens n r)"
      from Suc.IH [OF this] f show ?thesis by auto
    qed
  qed
qed

lemma sscanf_strings_eq:
  assumes "\<forall>b \<in> set bs. length b = sz"
    and "\<forall>t \<in> set (scan_tokens (length bs) inp). length t < sz"
  shows "sscanf_strings inp bs =
    Inr (length (scan_tokens (length bs) inp), store_tokens (scan_tokens (length bs) inp) bs)"
  using assms
proof (induction bs arbitrary: inp)
  case Nil
  then show ?case by simp
next
  case (Cons b bs)
  show ?case
  proof (cases "scan_s inp")
    case None
    then show ?thesis by simp
  next
    case (Some p)
    obtain t r where p: "p = (t, r)" by (cases p)
    from Some p have s: "scan_s inp = Some (t, r)" by simp
    from s Cons.prems have lt: "length t < length b" by simp
    from s Cons.prems have "\<forall>b \<in> set bs. length b = sz"
      and "\<forall>t \<in> set (scan_tokens (length bs) r). length t < sz"
      by simp_all
    from Cons.IH [OF this] s lt show ?thesis
      by (simp add: bind_fault_def store_string_def)
  qed
qed

lemma sscanf_strings_overrun:
  assumes "\<forall>b \<in> set bs. length b = sz"
    and "\<exists>t \<in> set (scan_tokens (length bs) inp). \<not> length t < sz"
  shows "sscanf_strings inp bs = Inl OutOfBounds"
  using assms
proof (induction bs arbitrary: inp)
  case Nil
  then show ?case by simp
next
  case (Cons b bs)
  show ?case
  proof (cases "scan_s inp")
    case None
    with Cons.prems show ?thesis by simp
  next
    case (Some p)
    obtain t r where p: "p = (t, r)" by (cases p)
    from Some p have s: "scan_s inp = Some (t, r)" by simp
    show ?thesis
    proof (cases "length t < sz")
      case False
      with s Cons.prems(1) show ?thesis
        by (simp add: bind_fault_def store_string_def)
    next
      case True
      with s Cons.prems have "\<forall>b \<in> set bs. length b = sz"
        and "\<exists>t \<in> set (scan_tokens (length bs) r). \<not> length t < sz"
        by simp_all
      from Cons.IH [OF this] s show ?thesis
        by (simp add: bind_fault_def store_string_def)
    qed
  qed
qed

lemma store_tokens_length: "length (store_tokens ts bs) = length bs"
  by (induction ts bs rule: store_tokens.induct) auto

lemma store_tokens_nth:
  assumes "k < length bs"
  shows "store_tokens ts bs ! k =
    (if k < length ts then ts ! k @ NUL # drop (Suc (length (ts ! k))) (bs ! k) else bs ! k)"
  using assms
proof (induction ts bs arbitrary: k rule: store_tokens.induct)
  case (1 t ts b bs)
  then show ?case by (cases k) auto
next
  case (2 bs)
  then show ?case by simp
next
  case (3 ts)
  then show ?case by simp
qed

lemma cstring_stored:
  assumes "NUL \<notin> set t"
  shows "cstring (t @ NUL # r) = t"
proof -
  have "takeWhile (\<lambda>ch. ch \<noteq> NUL) (t @ NUL # r) = t @ takeWhile (\<lambda>ch. ch \<noteq> NUL) (NUL # r)"
    using assms by (intro takeWhile_append2) auto
  then show ?thesis by (simp add: cstring_def)
qed

lemma strlen_stored:
  assumes "NUL \<notin> set t"
  shows "strlen (t @ NUL # r) = Inr (length t)"
  using assms by (simp add: strlen_def cstring_stored)

lemma cstring_no_NUL: "NUL \<notin> set (cstring b)"
  unfolding cstring_def by (induction b) auto

subsection \<open>The loops in closed form\<close>

lemma score_step_eq:
  assumes "x < length qb" "x < length ib" "x < length db" "x < length cb"
    and "x < length (q tc)" "x < length (i tc)" "x < length (d tc)" "x < length (c tc)"
    and "x < length (rs tc)" "x < length (irs tc)"
  shows "score_step nrm qb ib db cb x tc =
    Inr (tc\<lparr>q := (q tc)[x := (if nrm (qb ! x) < 6 then 6 else nrm (qb ! x))],
            i := (i tc)[x := nrm (ib ! x)],
            d := (d tc)[x := nrm (db ! x)],
            c := (c tc)[x := nrm (cb ! x)],
            irs := (irs tc)[x := char_to_int (rs tc ! x)]\<rparr>)"
  using assms
  by (simp add: score_step_def bind_fault_def block_read_def block_write_def Let_def)

lemma score_loop_eq:
  assumes "n = nat (rslen tc)" "x \<le> n"
    and "n \<le> length qb" "n \<le> length ib" "n \<le> length db" "n \<le> length cb"
    and "length (q tc) = n" "length (i tc) = n" "length (d tc) = n" "length (c tc) = n"
    and "n \<le> length (rs tc)" "length (irs tc) = n"
  shows "score_loop nrm qb ib db cb x tc =
    Inr (tc\<lparr>q := take x (q tc) @ map (\<lambda>y. if nrm (qb ! y) < 6 then 6 else nrm (qb ! y)) [x..<n],
            i := take x (i tc) @ map (\<lambda>y. nrm (ib ! y)) [x..<n],
            d := take x (d tc) @ map (\<lambda>y. nrm (db ! y)) [x..<n],
            c := take x (c tc) @ map (\<lambda>y. nrm (cb ! y)) [x..<n],
            irs := take x (irs tc) @ map (\<lambda>y. char_to_int (rs tc ! y)) [x..<n]\<rparr>)"
  using assms
proof (induction "n - x" arbitrary: x tc)
  case 0
  then have "x = n" by simp
  with 0 have "\<not> int x < rslen tc" by simp
  then have "score_loop nrm qb ib db cb x tc = Inr tc"
    by (subst score_loop.simps) simp
  with 0 \<open>x = n\<close> show ?case by simp
next
  case (Suc k)
  from Suc.hyps(2) have lt: "x < n" by linarith
  with Suc.prems have cond: "int x < rslen tc" by linarith
  let ?tc = "tc\<lparr>q := (q tc)[x := (if nrm (qb ! x) < 6 then 6 else nrm (qb ! x))],
            i := (i tc)[x := nrm (ib ! x)],
            d := (d tc)[x := nrm (db ! x)],
            c := (c tc)[x := nrm (cb ! x)],
            irs := (irs tc)[x := char_to_int (rs tc ! x)]\<rparr>"
  have step: "score_step nrm qb ib db cb x tc = Inr ?tc"
    using lt Suc.prems by (intro score_step_eq) simp_all
  have unfold: "score_loop nrm qb ib db cb x tc = score_loop nrm qb ib db cb (Suc x) ?tc"
    using cond step by (subst score_loop.simps) simp
  have k: "k = n - Suc x" using Suc.hyps(2) by simp
  have ih: "score_loop nrm qb ib db cb (Suc x) ?tc =
    Inr (?tc\<lparr>q := take (Suc x) (q ?tc) @ map (\<lambda>y. if nrm (qb ! y) < 6 then 6 else nrm (qb ! y)) [Suc x..<n],
            i := take (Suc x) (i ?tc) @ map (\<lambda>y. nrm (ib ! y)) [Suc x..<n],
            d := take (Suc x) (d ?tc) @ map (\<lambda>y. nrm (db ! y)) [Suc x..<n],
            c := take (Suc x) (c ?tc) @ map (\<lambda>y. nrm (cb ! y)) [Suc x..<n],
            irs := take (Suc x) (irs ?tc) @ map (\<lambda>y. char_to_int (rs ?tc ! y)) [Suc x..<n]\<rparr>)"
    using lt Suc.prems by (intro Suc.hyps(1) [OF k]) simp_all
  have lens: "x < length (q tc)" "x < length (i tc)" "x < length (d tc)" "x < length (c tc)"
    "x < length (irs tc)"
    using lt Suc.prems by simp_all
  show ?case
    unfolding unfold ih
    using lens lt
    by (simp add: take_update_upt [where f = "\<lambda>y. if nrm (qb ! y) < 6 then 6 else nrm (qb ! y)"]
        take_update_upt [where f = "\<lambda>y. nrm (ib ! y)"]
        take_update_upt [where f = "\<lambda>y. nrm (db ! y)"]
        take_update_upt [where f = "\<lambda>y. nrm (cb ! y)"]
        take_update_upt [where f = "\<lambda>y. char_to_int (rs tc ! y)"])
qed

lemma hap_step_eq:
  assumes "x < length (hap tc)" "x < length (ihap tc)"
  shows "hap_step x tc = Inr (tc\<lparr>ihap := (ihap tc)[x := char_to_int (hap tc ! x)]\<rparr>)"
  using assms
  by (simp add: hap_step_def bind_fault_def block_read_def block_write_def)

lemma hap_loop_eq:
  assumes "n = nat (haplen tc)" "x \<le> n" "n \<le> length (hap tc)" "length (ihap tc) = n"
  shows "hap_loop x tc =
    Inr (tc\<lparr>ihap := take x (ihap tc) @ map (\<lambda>y. char_to_int (hap tc ! y)) [x..<n]\<rparr>)"
  using assms
proof (induction "n - x" arbitrary: x tc)
  case 0
  then have "x = n" by simp
  with 0 have "\<not> int x < haplen tc" by simp
  then have "hap_loop x tc = Inr tc"
    by (subst hap_loop.simps) simp
  with 0 \<open>x = n\<close> show ?case by simp
next
  case (Suc k)
  from Suc.hyps(2) have lt: "x < n" by linarith
  with Suc.prems have cond: "int x < haplen tc" by linarith
  let ?tc = "tc\<lparr>ihap := (ihap tc)[x := char_to_int (hap tc ! x)]\<rparr>"
  have step: "hap_step x tc = Inr ?tc"
    using lt Suc.prems by (intro hap_step_eq) simp_all
  have unfold: "hap_loop x tc = hap_loop (Suc x) ?tc"
    using cond step by (subst hap_loop.simps) simp
  have k: "k = n - Suc x" using Suc.hyps(2) by simp
  have ih: "hap_loop (Suc x) ?tc =
    Inr (?tc\<lparr>ihap := take (Suc x) (ihap ?tc) @ map (\<lambda>y. char_to_int (hap ?tc ! y)) [Suc x..<n]\<rparr>)"
    using lt Suc.prems by (intro Suc.hyps(1) [OF k]) simp_all
  have lens: "x < length (ihap tc)"
    using lt Suc.prems by simp
  show ?case
    unfolding unfold ih
    using lens lt
    by (simp add: take_update_upt [where f = "\<lambda>y. char_to_int (hap tc ! y)"])
qed

subsection \<open>The three outcomes of a call\<close>

lemma getline_None: "getline inp = None \<longleftrightarrow> inp = []"
  by (simp add: getline_def split: list.splits)

lemma cstring_length: "length (cstring b) \<le> length b"
  by (simp add: cstring_def length_takeWhile_le)

lemma line_tokens_props:
  assumes "tok \<in> set (line_tokens line)"
  shows "NUL \<notin> set tok \<and> length tok \<le> length line \<and> tok \<noteq> []"
proof -
  from assms have "set tok \<subseteq> set (cstring line) \<and> length tok \<le> length (cstring line) \<and> tok \<noteq> []"
    unfolding line_tokens_def by (rule scan_tokens_set)
  with cstring_no_NUL [of line] cstring_length [of line] show ?thesis
    by (meson le_trans subsetD)
qed

lemma line_tokens_length: "length (line_tokens line) \<le> 6"
  by (simp add: line_tokens_def scan_tokens_length)

lemma tokens_fit_iff:
  "tokens_fit E line \<longleftrightarrow> (\<forall>t \<in> set (line_tokens line). length t < block_size E line)"
  by (simp add: tokens_fit_def list_all_iff)

lemma sscanf_line:
  assumes "tokens_fit E line"
  shows "sscanf (cstring line) (map (\<lambda>k. malloc_chars E k (block_size E line)) [0..<6]) =
    Inr (if line_tokens line = [] then EOF else int (length (line_tokens line)),
         scanned_blocks E line)"
proof -
  let ?bs = "map (\<lambda>k. malloc_chars E k (block_size E line)) [0..<6]"
  have "\<forall>b \<in> set ?bs. length b = block_size E line"
    by (auto simp: malloc_chars_def)
  moreover have "\<forall>t \<in> set (scan_tokens (length ?bs) (cstring line)). length t < block_size E line"
    using assms by (simp add: tokens_fit_iff line_tokens_def)
  ultimately have "sscanf_strings (cstring line) ?bs =
    Inr (length (scan_tokens (length ?bs) (cstring line)),
         store_tokens (scan_tokens (length ?bs) (cstring line)) ?bs)"
    by (rule sscanf_strings_eq)
  then show ?thesis
    by (simp add: sscanf_def bind_fault_def line_tokens_def scanned_blocks_def)
qed

lemma sscanf_line_overrun:
  assumes "\<not> tokens_fit E line"
  shows "sscanf (cstring line) (map (\<lambda>k. malloc_chars E k (block_size E line)) [0..<6]) =
    Inl OutOfBounds"
proof -
  let ?bs = "map (\<lambda>k. malloc_chars E k (block_size E line)) [0..<6]"
  have "\<forall>b \<in> set ?bs. length b = block_size E line"
    by (auto simp: malloc_chars_def)
  moreover have "\<exists>t \<in> set (scan_tokens (length ?bs) (cstring line)). \<not> length t < block_size E line"
    using assms by (simp add: tokens_fit_iff line_tokens_def)
  ultimately have "sscanf_strings (cstring line) ?bs = Inl OutOfBounds"
    by (rule sscanf_strings_overrun)
  then show ?thesis
    by (simp add: sscanf_def bind_fault_def)
qed

lemma scanned_blocks_nth:
  assumes "k < 6"
  shows "scanned_blocks E line ! k =
    (if k < length (line_tokens line)
     then line_tokens line ! k @ NUL #
       drop (Suc (length (line_tokens line ! k))) (malloc_chars E k (block_size E line))
     else malloc_chars E k (block_size E line))"
  using assms by (simp add: scanned_blocks_def store_tokens_nth)

lemma scanned_blocks_nth_length:
  assumes "k < 6" "tokens_fit E line"
  shows "length (scanned_blocks E line ! k) = block_size E line"
proof (cases "k < length (line_tokens line)")
  case True
  then have "line_tokens line ! k \<in> set (line_tokens line)" by simp
  with assms(2) have "length (line_tokens line ! k) < block_size E line"
    by (simp add: tokens_fit_iff)
  with True assms show ?thesis
    by (simp add: scanned_blocks_nth malloc_chars_def)
next
  case False
  with assms show ?thesis by (simp add: scanned_blocks_nth malloc_chars_def)
qed

lemma read_testcase_eof:
  "read_testcase E tc [] = Inr (- 1, tc, [])"
  by (simp add: read_testcase_def getline_def)

lemma read_testcase_malformed:
  assumes "getline inp = Some (line, rest)" "length (line_tokens line) < 6"
    and "tokens_fit E line"
  shows "read_testcase E tc inp =
    Inr (- 1, tc\<lparr>hap := scanned_blocks E line ! 0, rs := scanned_blocks E line ! 1,
                 ihap := malloc_ints E 0 (block_size E line),
                 irs := malloc_ints E 1 (block_size E line)\<rparr>, rest)"
proof -
  from assms(2) have "(if line_tokens line = [] then EOF else int (length (line_tokens line))) \<noteq> 6"
    by (simp add: EOF_def)
  with assms(1) show ?thesis
    unfolding read_testcase_def
    using sscanf_line [OF assms(3)]
    by (simp add: bind_fault_def Let_def block_size_def)
qed

text \<open>
  A line with a token that does not fit: the store of that token leaves its block, and
  the call is the fault.
\<close>

lemma read_testcase_overrun:
  assumes "getline inp = Some (line, rest)" "\<not> tokens_fit E line"
  shows "read_testcase E tc inp = Inl OutOfBounds"
  unfolding read_testcase_def
  using assms(1) sscanf_line_overrun [OF assms(2)]
  by (simp add: bind_fault_def Let_def block_size_def)

lemma scanned_block_token:
  assumes "k < length (line_tokens line)" "tokens_fit E line"
  shows "cstring (scanned_blocks E line ! k) = line_tokens line ! k"
    and "strlen (scanned_blocks E line ! k) = Inr (length (line_tokens line ! k))"
    and "length (line_tokens line ! k) < block_size E line"
    and "\<And>x. x < length (line_tokens line ! k) \<Longrightarrow>
           scanned_blocks E line ! k ! x = line_tokens line ! k ! x"
    and "scanned_blocks E line ! k ! length (line_tokens line ! k) = NUL"
proof -
  from assms line_tokens_length [of line] have k: "k < 6" by simp
  from assms have mem: "line_tokens line ! k \<in> set (line_tokens line)" by simp
  note p = line_tokens_props [OF mem]
  from mem assms(2) show "length (line_tokens line ! k) < block_size E line"
    by (simp add: tokens_fit_iff)
  from p assms k show "cstring (scanned_blocks E line ! k) = line_tokens line ! k"
    by (simp add: scanned_blocks_nth cstring_stored)
  from p assms k show "strlen (scanned_blocks E line ! k) = Inr (length (line_tokens line ! k))"
    by (simp add: scanned_blocks_nth strlen_stored)
  from assms k show "scanned_blocks E line ! k ! length (line_tokens line ! k) = NUL"
    by (simp add: scanned_blocks_nth nth_append)
  fix x assume "x < length (line_tokens line ! k)"
  with assms k show "scanned_blocks E line ! k ! x = line_tokens line ! k ! x"
    by (simp add: scanned_blocks_nth nth_append)
qed

lemma read_testcase_six:
  fixes E :: env and line :: string
  assumes gl: "getline inp = Some (line, rest)" and six: "length (line_tokens line) = 6"
    and fit: "tokens_fit E line"
  defines "B \<equiv> scanned_blocks E line"
  defines "hl \<equiv> length (line_tokens line ! 0)"
  defines "rl \<equiv> length (line_tokens line ! 1)"
  shows "read_testcase E tc inp =
    Inr (0, \<lparr>rslen = int rl, haplen = int hl,
              q = map (\<lambda>y. if normalize E (B ! 2 ! y) < 6 then 6 else normalize E (B ! 2 ! y)) [0..<rl],
              i = map (\<lambda>y. normalize E (B ! 3 ! y)) [0..<rl],
              d = map (\<lambda>y. normalize E (B ! 4 ! y)) [0..<rl],
              c = map (\<lambda>y. normalize E (B ! 5 ! y)) [0..<rl],
              hap = B ! 0, rs = B ! 1,
              ihap = map (\<lambda>y. char_to_int (B ! 0 ! y)) [0..<hl],
              irs = map (\<lambda>y. char_to_int (B ! 1 ! y)) [0..<rl]\<rparr>, rest)"
proof -
  have n6: "(if line_tokens line = [] then EOF else int (length (line_tokens line))) = 6"
    using six by auto
  have sl0: "strlen (B ! 0) = Inr hl" and sl1: "strlen (B ! 1) = Inr rl"
    unfolding B_def hl_def rl_def using six fit by (simp_all add: scanned_block_token(2))
  have rl: "rl < block_size E line" and hl: "hl < block_size E line"
    unfolding hl_def rl_def using six fit by (simp_all add: scanned_block_token(3))
  have len: "\<And>k. k < 6 \<Longrightarrow> length (B ! k) = block_size E line"
    unfolding B_def using fit by (simp add: scanned_blocks_nth_length)
  let ?fq = "\<lambda>y. if normalize E (B ! 2 ! y) < 6 then 6 else normalize E (B ! 2 ! y)"
  let ?tc4 = "\<lparr>rslen = int rl, haplen = int hl,
      q = malloc_ints E 2 rl, i = malloc_ints E 3 rl,
      d = malloc_ints E 4 rl, c = malloc_ints E 5 rl,
      hap = B ! 0, rs = B ! 1,
      ihap = malloc_ints E 6 hl, irs = malloc_ints E 7 rl\<rparr>"
  let ?tc5 = "\<lparr>rslen = int rl, haplen = int hl,
      q = map ?fq [0..<rl],
      i = map (\<lambda>y. normalize E (B ! 3 ! y)) [0..<rl],
      d = map (\<lambda>y. normalize E (B ! 4 ! y)) [0..<rl],
      c = map (\<lambda>y. normalize E (B ! 5 ! y)) [0..<rl],
      hap = B ! 0, rs = B ! 1,
      ihap = malloc_ints E 6 hl,
      irs = map (\<lambda>y. char_to_int (B ! 1 ! y)) [0..<rl]\<rparr>"
  let ?tc6 = "\<lparr>rslen = int rl, haplen = int hl,
      q = map ?fq [0..<rl],
      i = map (\<lambda>y. normalize E (B ! 3 ! y)) [0..<rl],
      d = map (\<lambda>y. normalize E (B ! 4 ! y)) [0..<rl],
      c = map (\<lambda>y. normalize E (B ! 5 ! y)) [0..<rl],
      hap = B ! 0, rs = B ! 1,
      ihap = map (\<lambda>y. char_to_int (B ! 0 ! y)) [0..<hl],
      irs = map (\<lambda>y. char_to_int (B ! 1 ! y)) [0..<rl]\<rparr>"
  have "score_loop (normalize E) (B ! 2) (B ! 3) (B ! 4) (B ! 5) 0 ?tc4 =
    Inr (?tc4\<lparr>q := take 0 (q ?tc4) @ map ?fq [0..<rl],
            i := take 0 (i ?tc4) @ map (\<lambda>y. normalize E (B ! 3 ! y)) [0..<rl],
            d := take 0 (d ?tc4) @ map (\<lambda>y. normalize E (B ! 4 ! y)) [0..<rl],
            c := take 0 (c ?tc4) @ map (\<lambda>y. normalize E (B ! 5 ! y)) [0..<rl],
            irs := take 0 (irs ?tc4) @ map (\<lambda>y. char_to_int (rs ?tc4 ! y)) [0..<rl]\<rparr>)"
    using rl len by (intro score_loop_eq) (simp_all add: malloc_ints_def)
  then have loop1: "score_loop (normalize E) (B ! 2) (B ! 3) (B ! 4) (B ! 5) 0 ?tc4 = Inr ?tc5"
    by simp
  have "hap_loop 0 ?tc5 =
    Inr (?tc5\<lparr>ihap := take 0 (ihap ?tc5) @ map (\<lambda>y. char_to_int (hap ?tc5 ! y)) [0..<hl]\<rparr>)"
    using hl len by (intro hap_loop_eq) (simp_all add: malloc_ints_def)
  then have loop2: "hap_loop 0 ?tc5 = Inr ?tc6"
    by simp
  show ?thesis
    unfolding read_testcase_def
    using gl sscanf_line [OF fit] n6 sl0 sl1 loop1 loop2
    by (cases tc) (simp add: bind_fault_def Let_def block_size_def B_def [symmetric])
qed

lemma read_testcase_zero_six:
  assumes gl: "getline inp = Some (line, rest)"
    and ok: "read_testcase E tc inp = Inr (0, tc', rest')"
  shows "length (line_tokens line) = 6" and "tokens_fit E line"
proof -
  show fit: "tokens_fit E line"
  proof (rule ccontr)
    assume "\<not> tokens_fit E line"
    from read_testcase_overrun [OF gl this, of tc] ok show False by simp
  qed
  show "length (line_tokens line) = 6"
  proof (rule ccontr)
    assume "length (line_tokens line) \<noteq> 6"
    with line_tokens_length [of line] have "length (line_tokens line) < 6" by simp
    from read_testcase_malformed [OF gl this fit, of tc] ok show False by simp
  qed
qed

lemma read_testcase_success:
  assumes gl: "getline inp = Some (line, rest)"
    and ok: "read_testcase E tc inp = Inr (0, tc', rest')"
  shows "tc' = \<lparr>rslen = int (length (line_tokens line ! 1)),
      haplen = int (length (line_tokens line ! 0)),
      q = map (\<lambda>y. if normalize E (scanned_blocks E line ! 2 ! y) < 6 then 6
                     else normalize E (scanned_blocks E line ! 2 ! y))
            [0..<length (line_tokens line ! 1)],
      i = map (\<lambda>y. normalize E (scanned_blocks E line ! 3 ! y)) [0..<length (line_tokens line ! 1)],
      d = map (\<lambda>y. normalize E (scanned_blocks E line ! 4 ! y)) [0..<length (line_tokens line ! 1)],
      c = map (\<lambda>y. normalize E (scanned_blocks E line ! 5 ! y)) [0..<length (line_tokens line ! 1)],
      hap = scanned_blocks E line ! 0, rs = scanned_blocks E line ! 1,
      ihap = map (\<lambda>y. char_to_int (scanned_blocks E line ! 0 ! y)) [0..<length (line_tokens line ! 0)],
      irs = map (\<lambda>y. char_to_int (scanned_blocks E line ! 1 ! y)) [0..<length (line_tokens line ! 1)]\<rparr>"
    and "rest' = rest"
    and "length (line_tokens line) = 6"
    and "tokens_fit E line"
proof -
  show six: "length (line_tokens line) = 6"
    using gl ok by (rule read_testcase_zero_six(1))
  show fit: "tokens_fit E line"
    using gl ok by (rule read_testcase_zero_six(2))
  from read_testcase_six [OF gl six fit, of tc] ok
  show "tc' = \<lparr>rslen = int (length (line_tokens line ! 1)),
      haplen = int (length (line_tokens line ! 0)),
      q = map (\<lambda>y. if normalize E (scanned_blocks E line ! 2 ! y) < 6 then 6
                     else normalize E (scanned_blocks E line ! 2 ! y))
            [0..<length (line_tokens line ! 1)],
      i = map (\<lambda>y. normalize E (scanned_blocks E line ! 3 ! y)) [0..<length (line_tokens line ! 1)],
      d = map (\<lambda>y. normalize E (scanned_blocks E line ! 4 ! y)) [0..<length (line_tokens line ! 1)],
      c = map (\<lambda>y. normalize E (scanned_blocks E line ! 5 ! y)) [0..<length (line_tokens line ! 1)],
      hap = scanned_blocks E line ! 0, rs = scanned_blocks E line ! 1,
      ihap = map (\<lambda>y. char_to_int (scanned_blocks E line ! 0 ! y)) [0..<length (line_tokens line ! 0)],
      irs = map (\<lambda>y. char_to_int (scanned_blocks E line ! 1 ! y)) [0..<length (line_tokens line ! 1)]\<rparr>"
    and "rest' = rest"
    by simp_all
qed

text \<open>
  A call faults exactly when it reads a line with a token that does not fit its
  block; every other access of \<open>read_testcase\<close> is inside its block.
\<close>

lemma read_testcase_fault_iff:
  "(\<exists>e. read_testcase E tc inp = Inl e) \<longleftrightarrow>
   (\<exists>line rest. getline inp = Some (line, rest) \<and> \<not> tokens_fit E line)"
proof (cases "getline inp")
  case None
  then have "inp = []" by (simp add: getline_None)
  with None show ?thesis by (simp add: read_testcase_eof)
next
  case (Some p)
  obtain line rest where gl: "getline inp = Some (line, rest)"
    using Some by (cases p) simp
  show ?thesis
  proof (cases "tokens_fit E line")
    case False
    from read_testcase_overrun [OF gl False, of tc] gl False show ?thesis by auto
  next
    case fit: True
    show ?thesis
    proof (cases "length (line_tokens line) < 6")
      case True
      from read_testcase_malformed [OF gl True fit, of tc] gl fit show ?thesis by auto
    next
      case False
      with line_tokens_length [of line] have "length (line_tokens line) = 6" by simp
      from read_testcase_six [OF gl this fit, of tc] gl fit show ?thesis by auto
    qed
  qed
qed

lemma char_to_int_ascii:
  assumes "of_char ch < (128 :: nat)"
  shows "char_to_int ch = int (of_char ch)"
proof -
  have "(of_char ch :: 8 word) = word_of_nat (of_char ch)"
    by (simp add: of_nat_of_char)
  then have "char_to_int ch = signed_take_bit 7 (int (of_char ch))"
    by (simp add: char_to_int_def signed_of_nat)
  also have "\<dots> = int (of_char ch)"
    using assms by (intro signed_take_bit_int_eq_self) simp_all
  finally show ?thesis .
qed

lemma getline_AC_GT: "getline ''AC GT'' = Some (''AC GT'', [])"
  by (simp add: getline_def newline_def)

lemma line_tokens_AC_GT: "line_tokens ''AC GT'' = [''AC'', ''GT'']"
  by code_simp

lemma tokens_fit_AC_GT: "tokens_fit env0 ''AC GT''"
  by (simp add: tokens_fit_def line_tokens_AC_GT block_size_def env0_def)

lemma getline_line2: "getline line2 = Some (line2, [])"
  by (simp add: getline_def newline_def line2_def)

lemma line_tokens_line2: "line_tokens line2 = [''AC'', ''GT'', ''!!'', ''!!'', ''!!'', ''!!'']"
  by code_simp

lemma read_testcase_line2:
  assumes "2 < getline_size E line2"
  shows "\<exists>T. read_testcase E tc line2 = Inr (0, T, [])
     \<and> haplen T = 2 \<and> rslen T = 2 \<and> ihap T = [65, 67] \<and> irs T = [71, 84]"
proof -
  have six: "length (line_tokens line2) = 6"
    by (simp add: line_tokens_line2)
  have fit: "tokens_fit E line2"
    using assms by (simp add: tokens_fit_def line_tokens_line2 block_size_def)
  have upt2: "[0..<2] = [0, 1]"
    by (simp add: upt_rec)
  have c: "char_to_int CHR ''A'' = 65" "char_to_int CHR ''C'' = 67"
    "char_to_int CHR ''G'' = 71" "char_to_int CHR ''T'' = 84"
    by (simp_all add: char_to_int_def)
  show ?thesis
    unfolding read_testcase_six [OF getline_line2 six fit]
    using c by (simp add: line_tokens_line2 scanned_blocks_nth upt2)
qed

text \<open>
  A run in which \<^verbatim>\<open>%s\<close> leaves its block: \<^verbatim>\<open>size\<close> is 120 and the read has 120 bases, so
  its NUL is stored at index 120 of a block of 120 bytes.
\<close>

lemma read_testcase_long_read_faults:
  "read_testcase env0 tc0 (''AC '' @ replicate 120 CHR ''G'' @ '' ! ! ! !'') = Inl OutOfBounds"
  by code_simp

subsection \<open>The claims about read_testcase\<close>

text \<open>
  C2, as the code has it. On a line with fewer than six tokens, each of which fits the
  block it is scanned into, \<open>read_testcase\<close> returns -1, and it returns the same -1
  when the input is exhausted: the value returned does not tell the two apart.
\<close>

theorem read_testcase_same_failure_code:
  assumes "getline inp = Some (line, rest)" and "length (line_tokens line) < 6"
    and "tokens_fit E line"
  shows "returned (read_testcase E tc inp) = Some (- 1)
    \<and> returned (read_testcase E tc []) = Some (- 1)
    \<and> returned (read_testcase E tc inp) = returned (read_testcase E tc [])"
  using read_testcase_malformed [OF assms, of tc] read_testcase_eof [of E tc]
  by (simp add: returned_def)

text \<open>C2, as the code has it, at the line \<^verbatim>\<open>AC GT\<close>.\<close>

theorem read_testcase_same_failure_code_witness:
  "getline ''AC GT'' = Some (''AC GT'', []) \<and> length (line_tokens ''AC GT'') < 6
    \<and> tokens_fit env0 ''AC GT''
    \<and> returned (read_testcase env0 tc0 ''AC GT'') = Some (- 1)
    \<and> returned (read_testcase env0 tc0 []) = Some (- 1)"
proof -
  have t: "length (line_tokens ''AC GT'') < 6"
    by (simp add: line_tokens_AC_GT)
  from read_testcase_same_failure_code [OF getline_AC_GT t tokens_fit_AC_GT, of tc0]
    getline_AC_GT t tokens_fit_AC_GT
  show ?thesis by simp
qed

text \<open>
  C2 as stated fails: the line \<^verbatim>\<open>AC GT\<close> has two tokens, and the call on it returns what
  the call on the exhausted input returns.
\<close>

theorem malformed_and_eof_not_distinguished:
  "length (line_tokens ''AC GT'') < 6
    \<and> returned (read_testcase env0 tc0 ''AC GT'') = Some (- 1)
    \<and> returned (read_testcase env0 tc0 []) = Some (- 1)
    \<and> \<not> (returned (read_testcase env0 tc0 ''AC GT'') \<noteq> returned (read_testcase env0 tc0 []))"
  by code_simp

text \<open>
  C3. After a call that returns 0, at every read position \<open>x\<close> the stored quality is
  the larger of 6 and \<^verbatim>\<open>normalize\<close> of the byte at \<open>x\<close> of the quality block, hence at
  least 6; the insertion, deletion and continuation values are \<^verbatim>\<open>normalize\<close> of the
  bytes at \<open>x\<close> of their blocks, unchanged. The four arrays have the read's length.
  Within a score string the byte of the block is the byte of the string (positions
  past a score string shorter than the read hold its NUL and then what \<^verbatim>\<open>malloc\<close> left).
  A call in which a token is stored past its block is the fault, not a return of 0.
\<close>

theorem read_testcase_scores:
  assumes gl: "getline inp = Some (line, rest)"
    and ok: "read_testcase E tc inp = Inr (0, tc', rest')"
    and x: "int x < rslen tc'"
  shows "q tc' ! x = max (normalize E (scanned_blocks E line ! 2 ! x)) 6
    \<and> 6 \<le> q tc' ! x
    \<and> i tc' ! x = normalize E (scanned_blocks E line ! 3 ! x)
    \<and> d tc' ! x = normalize E (scanned_blocks E line ! 4 ! x)
    \<and> c tc' ! x = normalize E (scanned_blocks E line ! 5 ! x)
    \<and> length (q tc') = nat (rslen tc') \<and> length (i tc') = nat (rslen tc')
    \<and> length (d tc') = nat (rslen tc') \<and> length (c tc') = nat (rslen tc')
    \<and> (\<forall>k \<in> {2, 3, 4, 5}. x < length (line_tokens line ! k) \<longrightarrow>
          scanned_blocks E line ! k ! x = line_tokens line ! k ! x)"
proof -
  note tc' = read_testcase_success(1) [OF gl ok]
  have six: "length (line_tokens line) = 6"
    using gl ok by (rule read_testcase_success(3))
  have fit: "tokens_fit E line"
    using gl ok by (rule read_testcase_success(4))
  from x have xl: "x < length (line_tokens line ! 1)"
    by (simp add: tc')
  have toks: "\<forall>k \<in> {2, 3, 4, 5}. x < length (line_tokens line ! k) \<longrightarrow>
          scanned_blocks E line ! k ! x = line_tokens line ! k ! x"
    using six fit by (auto intro: scanned_block_token(4))
  from xl toks show ?thesis
    by (simp add: tc' max_def)
qed

text \<open>
  C3 at position 1 of a record whose second quality is below 6 and floored, and whose
  first insertion value is below 6 and kept.
\<close>

theorem read_testcase_scores_witness:
  "\<exists>T. getline line1 = Some (line1, [])
     \<and> read_testcase env0 tc0 line1 = Inr (0, T, [])
     \<and> int 1 < rslen T
     \<and> q T ! 1 = max (normalize env0 (scanned_blocks env0 line1 ! 2 ! 1)) 6
     \<and> 6 \<le> q T ! 1
     \<and> i T ! 1 = normalize env0 (scanned_blocks env0 line1 ! 3 ! 1)
     \<and> q T = [20, 6, 40] \<and> i T = [2, 20, 40] \<and> d T = [0, 0, 0] \<and> c T = [10, 10, 10]"
proof -
  have gl: "getline line1 = Some (line1, [])"
    by (simp add: getline_def newline_def line1_def)
  have "case read_testcase env0 tc0 line1 of
      Inl e \<Rightarrow> False
    | Inr (n, T, r) \<Rightarrow> n = 0 \<and> r = [] \<and> rslen T = 3
        \<and> q T = [20, 6, 40] \<and> i T = [2, 20, 40] \<and> d T = [0, 0, 0] \<and> c T = [10, 10, 10]"
    by code_simp
  then obtain T where ok: "read_testcase env0 tc0 line1 = Inr (0, T, [])"
    and v: "rslen T = 3" "q T = [20, 6, 40]" "i T = [2, 20, 40]" "d T = [0, 0, 0]"
      "c T = [10, 10, 10]"
    by (auto split: sum.splits)
  from v have x: "int 1 < rslen T" by simp
  from read_testcase_scores [OF gl ok x] gl ok x v show ?thesis
    by auto
qed

text \<open>
  C4. After a call that returns 0, \<^verbatim>\<open>ihap\<close> and \<^verbatim>\<open>irs\<close> have the lengths of the haplotype
  and of the read, and hold at every position the byte of the sequence there, converted
  from \<^verbatim>\<open>char\<close> to \<^verbatim>\<open>int\<close> (\<open>char_to_int_ascii\<close>: for ASCII, the character's code). No
  table is consulted: on \<^verbatim>\<open>AC GT !! !! !! !!\<close> the arrays are 65, 67 and 71, 84 in
  every environment whose blocks hold the tokens, where the encoding table has the
  codes 0, 1 and 3, 2.
\<close>

theorem read_testcase_codes:
  assumes ok: "read_testcase E tc inp = Inr (0, tc', rest')"
  shows "haplen tc' = int (length (cstring (hap tc')))
    \<and> rslen tc' = int (length (cstring (rs tc')))
    \<and> length (ihap tc') = nat (haplen tc')
    \<and> length (irs tc') = nat (rslen tc')
    \<and> (\<forall>x. int x < haplen tc' \<longrightarrow> ihap tc' ! x = char_to_int (hap tc' ! x))
    \<and> (\<forall>x. int x < rslen tc' \<longrightarrow> irs tc' ! x = char_to_int (rs tc' ! x))
    \<and> (2 < getline_size E line2 \<longrightarrow>
         (\<exists>T. read_testcase E tc line2 = Inr (0, T, [])
            \<and> ihap T = [65, 67] \<and> irs T = [71, 84]))
    \<and> (\<exists>Tb. ConvertChar_init conversionTable = Inr Tb
          \<and> map (ConvertChar_get Tb \<circ> chr_byte) ''AC'' = [Inr 0, Inr 1]
          \<and> map (ConvertChar_get Tb \<circ> chr_byte) ''GT'' = [Inr 3, Inr 2])"
proof -
  from ok obtain line rest where gl: "getline inp = Some (line, rest)"
    by (cases "getline inp") (auto simp: read_testcase_def)
  note tc' = read_testcase_success(1) [OF gl ok]
  have six: "length (line_tokens line) = 6"
    using gl ok by (rule read_testcase_success(3))
  have fit: "tokens_fit E line"
    using gl ok by (rule read_testcase_success(4))
  have "cstring (hap tc') = line_tokens line ! 0" "cstring (rs tc') = line_tokens line ! 1"
    using six fit by (simp_all add: tc' scanned_block_token(1))
  with read_testcase_line2 [of E tc] ConvertChar_codes_AC_GT show ?thesis
    by (auto simp: tc')
qed

text \<open>
  C4 on a line whose haplotype starts with the byte 0xC1, which is negative as a
  \<^verbatim>\<open>char\<close>, and on the spec's example line.
\<close>

theorem read_testcase_codes_witness:
  "\<exists>T. read_testcase env0 tc0 line3 = Inr (0, T, [])
     \<and> haplen T = int (length (cstring (hap T)))
     \<and> rslen T = int (length (cstring (rs T)))
     \<and> int 0 < haplen T \<and> ihap T ! 0 = char_to_int (hap T ! 0)
     \<and> int 1 < rslen T \<and> irs T ! 1 = char_to_int (rs T ! 1)
     \<and> cstring (hap T) = [CHR 0xC1, CHR ''C''] \<and> cstring (rs T) = ''GT''
     \<and> ihap T = [- 63, 67] \<and> irs T = [71, 84]
     \<and> 2 < getline_size env0 line2
     \<and> (\<exists>T2. read_testcase env0 tc0 line2 = Inr (0, T2, [])
           \<and> ihap T2 = [65, 67] \<and> irs T2 = [71, 84])"
proof -
  have "case read_testcase env0 tc0 line3 of
      Inl e \<Rightarrow> False
    | Inr (n, T, r) \<Rightarrow> n = 0 \<and> r = [] \<and> rslen T = 2 \<and> haplen T = 2
        \<and> cstring (hap T) = [CHR 0xC1, CHR ''C''] \<and> cstring (rs T) = ''GT''
        \<and> ihap T = [- 63, 67] \<and> irs T = [71, 84]"
    by code_simp
  then obtain T where ok: "read_testcase env0 tc0 line3 = Inr (0, T, [])"
    and v: "rslen T = 2" "haplen T = 2" "cstring (hap T) = [CHR 0xC1, CHR ''C'']"
      "cstring (rs T) = ''GT''" "ihap T = [- 63, 67]" "irs T = [71, 84]"
    by (auto split: sum.splits)
  have sz: "2 < getline_size env0 line2"
    by (simp add: env0_def)
  note th = read_testcase_codes [OF ok]
  from th have h: "int 0 < haplen T \<longrightarrow> ihap T ! 0 = char_to_int (hap T ! 0)"
    by blast
  from th have r: "int 1 < rslen T \<longrightarrow> irs T ! 1 = char_to_int (rs T ! 1)"
    by blast
  from th have l: "haplen T = int (length (cstring (hap T)))"
    "rslen T = int (length (cstring (rs T)))"
    by blast+
  from th sz have e: "\<exists>T2. read_testcase env0 tc0 line2 = Inr (0, T2, [])
           \<and> ihap T2 = [65, 67] \<and> irs T2 = [71, 84]"
    by blast
  from h r l e sz ok v show ?thesis
    by simp
qed

text \<open>
  C8, as the code has it. On a line with fewer than six tokens, each of which fits the
  block it is scanned into, \<open>read_testcase\<close> returns -1 and leaves the two lengths and
  the four score arrays of the caller's test case as they were; \<^verbatim>\<open>hap\<close> holds the first
  token and \<^verbatim>\<open>rs\<close> the second when the line has them.
\<close>

theorem read_testcase_malformed_state:
  assumes gl: "getline inp = Some (line, rest)" and few: "length (line_tokens line) < 6"
    and fit: "tokens_fit E line"
  shows "\<exists>tc'. read_testcase E tc inp = Inr (- 1, tc', rest)
    \<and> rslen tc' = rslen tc \<and> haplen tc' = haplen tc
    \<and> q tc' = q tc \<and> i tc' = i tc \<and> d tc' = d tc \<and> c tc' = c tc
    \<and> (0 < length (line_tokens line) \<longrightarrow> cstring (hap tc') = line_tokens line ! 0)
    \<and> (1 < length (line_tokens line) \<longrightarrow> cstring (rs tc') = line_tokens line ! 1)"
proof -
  let ?B = "scanned_blocks E line"
  have h: "0 < length (line_tokens line) \<longrightarrow> cstring (?B ! 0) = line_tokens line ! 0"
    using scanned_block_token(1) [of 0 line E] fit by simp
  have r: "1 < length (line_tokens line) \<longrightarrow> cstring (?B ! 1) = line_tokens line ! 1"
    using scanned_block_token(1) [of 1 line E] fit by simp
  from h r show ?thesis
    unfolding read_testcase_malformed [OF gl few fit] by auto
qed

text \<open>C8, as the code has it, at the line \<^verbatim>\<open>AC GT\<close>.\<close>

theorem read_testcase_malformed_state_witness:
  "\<exists>T. getline ''AC GT'' = Some (''AC GT'', []) \<and> length (line_tokens ''AC GT'') < 6
    \<and> tokens_fit env0 ''AC GT''
    \<and> read_testcase env0 tc0 ''AC GT'' = Inr (- 1, T, [])
    \<and> rslen T = rslen tc0 \<and> haplen T = haplen tc0
    \<and> q T = q tc0 \<and> i T = i tc0 \<and> d T = d tc0 \<and> c T = c tc0
    \<and> cstring (hap T) = ''AC'' \<and> cstring (rs T) = ''GT''"
proof -
  have t: "length (line_tokens ''AC GT'') < 6"
    by (simp add: line_tokens_AC_GT)
  from read_testcase_malformed_state [OF getline_AC_GT t tokens_fit_AC_GT, of tc0]
    getline_AC_GT t tokens_fit_AC_GT
  show ?thesis by (auto simp: line_tokens_AC_GT)
qed

text \<open>
  C8 as stated fails: the call on \<^verbatim>\<open>AC GT\<close> returns -1 and leaves a test case that is
  not the caller's, with \<^verbatim>\<open>AC\<close> in \<^verbatim>\<open>hap\<close> and \<^verbatim>\<open>GT\<close> in \<^verbatim>\<open>rs\<close>.
\<close>

theorem malformed_line_populates_testcase:
  "length (line_tokens ''AC GT'') < 6
    \<and> returned (read_testcase env0 tc0 ''AC GT'') = Some (- 1)
    \<and> testcase_left (read_testcase env0 tc0 ''AC GT'') \<noteq> Some tc0
    \<and> map_option (cstring \<circ> hap) (testcase_left (read_testcase env0 tc0 ''AC GT'')) = Some ''AC''
    \<and> map_option (cstring \<circ> rs) (testcase_left (read_testcase env0 tc0 ''AC GT'')) = Some ''GT''
    \<and> cstring (hap tc0) = []"
  by code_simp

end
